theory Spec2Isabelle
  imports Complex_Main "HOL-Library.Log_Nat"
begin

text \<open>
  A model of the zone-based intrusion decision engine: the geometry helpers
  (geometry\_utils.py), the zone registry (zone\_manager.py), and the per-frame
  aggregation and alarm state machine (intrusion\_detector.py). Python's unbounded integers
  are \<open>int\<close>. A floating-point number is the real number it denotes; the arithmetic of
  \<open>bbox_center\<close> rounds every result to the float format in use (section
  ``Floating-point arithmetic''), while the times of the alarm state machine are added as
  real numbers. The special values inf and nan are not numbers of the model. Rendering
  calls (\<open>cv2.rectangle\<close>, \<open>cv2.putText\<close>, ...) do not influence any value modelled
  here and are left out.
\<close>

section \<open>Python values and builtins\<close>

text \<open>The exceptions that the modelled code can meet.\<close>

datatype py_error = IOError | JSONDecodeError | UnicodeDecodeError | AttributeError | TypeError

text \<open>
  The values \<open>json.load\<close> can return, which are also the values \<open>json.dump\<close> can
  write: a dict is the list of its items, in insertion order.
\<close>

datatype pyval =
    PNone
  | PBool bool
  | PInt int
  | PFloat real
  | PStr string
  | PList "pyval list"
  | PDict "(string \<times> pyval) list"

text \<open>\<open>int(x)\<close> on a number: the integral part, rounding toward zero.\<close>

definition py_int :: "real \<Rightarrow> int" where
  "py_int r = (if r < 0 then \<lceil>r\<rceil> else \<lfloor>r\<rfloor>)"

text \<open>\<open>len(v)\<close>: defined for lists, strings and dicts; a \<open>TypeError\<close> otherwise.\<close>

definition py_len :: "pyval \<Rightarrow> py_error + nat" where
  "py_len v =
     (case v of
        PList xs \<Rightarrow> Inr (length xs)
      | PStr s \<Rightarrow> Inr (length s)
      | PDict kvs \<Rightarrow> Inr (length kvs)
      | _ \<Rightarrow> Inl TypeError)"

text \<open>
  \<open>v.get(key, default)\<close>: only a dict has the method \<open>get\<close>; on any other value the
  attribute lookup raises \<open>AttributeError\<close>.
\<close>

definition py_get :: "pyval \<Rightarrow> string \<Rightarrow> pyval \<Rightarrow> py_error + pyval" where
  "py_get v key dflt =
     (case v of
        PDict kvs \<Rightarrow> Inr (case map_of kvs key of None \<Rightarrow> dflt | Some x \<Rightarrow> x)
      | _ \<Rightarrow> Inl AttributeError)"


section \<open>Floating-point arithmetic\<close>

text \<open>
  A binary floating-point format has a significand of \<open>precision\<close> bits and a largest
  exponent \<open>emax\<close>: \<open>binary64\<close> is Python's \<open>float\<close> (and the result type of the true
  division of two Python integers), \<open>binary32\<close> is numpy's \<open>float32\<close>, the type of the
  detector's box corners.
\<close>

record float_format =
  precision :: nat
  emax :: int

definition binary64 :: float_format where
  "binary64 = \<lparr>precision = 53, emax = 1023\<rparr>"

definition binary32 :: float_format where
  "binary32 = \<lparr>precision = 24, emax = 127\<rparr>"

text \<open>Rounding to the nearest integer, a tie going to the even one.\<close>

definition round_half_even :: "real \<Rightarrow> int" where
  "round_half_even x =
     (let f = \<lfloor>x\<rfloor>; d = x - real_of_int f
      in if d < 1 / 2 then f
         else if 1 / 2 < d then f + 1
         else if even f then f else f + 1)"

text \<open>
  The binary exponent of a positive number \<open>m\<close>: the \<open>e\<close> with
  \<open>2 ^ e \<le> m < 2 ^ (e + 1)\<close>, computed from the bit length of an integer.
\<close>

definition float_exponent :: "real \<Rightarrow> int" where
  "float_exponent m =
     (if 1 \<le> m then bitlen \<lfloor>m\<rfloor> - 1 else - bitlen (\<lceil>1 / m\<rceil> - 1))"

text \<open>
  \<open>round_float p x\<close>: the number with a \<open>p\<close>-bit significand nearest to \<open>x\<close>, a tie
  going to the even significand (the default rounding of IEEE 754 arithmetic). The
  exponent is not bounded here: \<open>overflows\<close> tells when the format would give inf instead.
  The reduced precision of the subnormal range is not modelled; those magnitudes are far
  below 1, where every value truncates to 0.
\<close>

definition round_float :: "nat \<Rightarrow> real \<Rightarrow> real" where
  "round_float p x =
     (if x = 0 then 0
      else let ulp = 2 powi (float_exponent \<bar>x\<bar> - int p + 1)
           in sgn x * real_of_int (round_half_even (\<bar>x\<bar> / ulp)) * ulp)"

definition fl :: "float_format \<Rightarrow> real \<Rightarrow> real" where
  "fl f x = round_float (precision f) x"

definition overflows :: "float_format \<Rightarrow> real \<Rightarrow> bool" where
  "overflows f x = (2 powi (emax f + 1) \<le> \<bar>fl f x\<bar>)"


section \<open>geometry\_utils.py\<close>

type_synonym point = "int \<times> int"
type_synonym polygon = "point list"
type_synonym bbox = "real \<times> real \<times> real \<times> real"

text \<open>
  \<open>cv2.pointPolygonTest\<close> belongs to OpenCV, not to this repository. The call
  \<open>cv2.pointPolygonTest(np.array(polygon, dtype=np.int32), point, False)\<close> is a parameter
  of the model: a function from the polygon and the point to the signed result.
\<close>

type_synonym polygon_test = "polygon \<Rightarrow> point \<Rightarrow> real"

definition point_in_polygon :: "polygon_test \<Rightarrow> point \<Rightarrow> polygon \<Rightarrow> bool" where
  "point_in_polygon pointPolygonTest point polygon =
     (let result = pointPolygonTest polygon point in result \<ge> 0)"

text \<open>
  \<open>bbox_center\<close>: the sum and the division by 2 are floating-point operations of the
  corners' format \<open>f\<close>, each rounding its result; \<open>int\<close> then truncates. Where the sum
  overflows the format (\<open>overflows f (x1 + x2)\<close>) the source gets inf and \<open>int\<close> raises
  \<open>OverflowError\<close>; the function below describes the boxes whose sums do not overflow.
  For Python integers the sum is exact and the true division rounds once; that is the
  same number (lemma \<open>fl_int_true_division\<close>).
\<close>

fun bbox_center :: "float_format \<Rightarrow> bbox \<Rightarrow> point" where
  "bbox_center f (x1, y1, x2, y2) =
     (let center_x = py_int (fl f (fl f (x1 + x2) / 2));
          center_y = py_int (fl f (fl f (y1 + y2) / 2))
      in (center_x, center_y))"

text \<open>
  A zone as the geometry functions read it: a dict with the keys \<open>'id'\<close> and
  \<open>'points'\<close>, the points being pairs of integers (the type hints of the module).
\<close>

record zone =
  zone_id :: int
  points :: polygon

text \<open>
  The loop of \<open>check_person_in_zones\<close>, with the list \<open>intersecting_zones\<close> as
  accumulator; \<open>append\<close> adds at the end.
\<close>

fun zones_loop :: "polygon_test \<Rightarrow> point \<Rightarrow> zone list \<Rightarrow> int list \<Rightarrow> int list" where
  "zones_loop ppt center [] intersecting_zones = intersecting_zones"
| "zones_loop ppt center (z # zs) intersecting_zones =
     zones_loop ppt center zs
       (if point_in_polygon ppt center (points z)
        then intersecting_zones @ [zone_id z]
        else intersecting_zones)"

definition check_person_in_zones :: "polygon_test \<Rightarrow> point \<Rightarrow> zone list \<Rightarrow> int list" where
  "check_person_in_zones ppt center zs = zones_loop ppt center zs []"

text \<open>
  Truncation toward zero as the specification words it, independently of \<open>py_int\<close>:
  \<open>n\<close> is the truncation of \<open>r\<close> when it lies between \<open>0\<close> and \<open>r\<close> and is less than
  one away from \<open>r\<close>.
\<close>

definition is_truncation :: "real \<Rightarrow> int \<Rightarrow> bool" where
  "is_truncation r n =
     (\<bar>real_of_int n\<bar> \<le> \<bar>r\<bar> \<and> \<bar>r\<bar> < \<bar>real_of_int n\<bar> + 1 \<and> 0 \<le> real_of_int n * r)"


section \<open>zone\_manager.py\<close>

record ZoneManager =
  json_path :: string
  zones :: pyval

text \<open>
  The file system as the registry sees it. A path is absent (\<open>os.path.exists\<close> is false)
  or holds a file; reading a file with \<open>open(path, 'r', encoding='utf-8')\<close> and
  \<open>json.load\<close> either raises or returns the parsed document:
  \<^item> \<open>Unreadable\<close>: \<open>open\<close> or \<open>read\<close> raises \<open>IOError\<close> (a directory, no permission);
  \<^item> \<open>Undecodable\<close>: the bytes are not UTF-8, reading raises \<open>UnicodeDecodeError\<close>;
  \<^item> \<open>Unparsable\<close>: the text is not JSON, \<open>json.load\<close> raises \<open>JSONDecodeError\<close>;
  \<^item> \<open>Document v\<close>: the text is the JSON document \<open>v\<close>.
\<close>

datatype zone_file = Unreadable | Undecodable | Unparsable | Document pyval

type_synonym filesystem = "string \<Rightarrow> zone_file option"

definition json_load :: "zone_file \<Rightarrow> py_error + pyval" where
  "json_load f =
     (case f of
        Unreadable \<Rightarrow> Inl IOError
      | Undecodable \<Rightarrow> Inl UnicodeDecodeError
      | Unparsable \<Rightarrow> Inl JSONDecodeError
      | Document v \<Rightarrow> Inr v)"

text \<open>
  \<open>load_zones\<close>: nothing happens when the path does not exist. Otherwise the \<open>try\<close> block
  reads the document and calls \<open>data.get('zones', [])\<close>; the handler catches
  \<open>json.JSONDecodeError\<close> and \<open>IOError\<close> only, every other exception leaves the method.
\<close>

definition load_zones :: "ZoneManager \<Rightarrow> filesystem \<Rightarrow> py_error + ZoneManager" where
  "load_zones zm fs =
     (case fs (json_path zm) of
        None \<Rightarrow> Inr zm
      | Some f \<Rightarrow>
          (case (case json_load f of
                   Inl e \<Rightarrow> Inl e
                 | Inr data \<Rightarrow> py_get data ''zones'' (PList [])) of
             Inr z \<Rightarrow> Inr (zm\<lparr>zones := z\<rparr>)
           | Inl e \<Rightarrow>
               if e = JSONDecodeError \<or> e = IOError
               then Inr (zm\<lparr>zones := PList []\<rparr>)
               else Inl e))"

text \<open>The constructor: \<open>self.zones = []\<close>, then \<open>self.load_zones()\<close>.\<close>

definition ZoneManager_init :: "string \<Rightarrow> filesystem \<Rightarrow> py_error + ZoneManager" where
  "ZoneManager_init path fs = load_zones \<lparr>json_path = path, zones = PList []\<rparr> fs"

text \<open>
  \<open>add_zone(points, zone_id)\<close>: \<open>zone_id\<close> is \<open>None\<close> when omitted; the coordinates are
  numbers, coerced by \<open>int\<close>. \<open>new_zone\<close> is the dict literal
  \<open>{'id': zone_id, 'points': [[int(x), int(y)] for x, y in points]}\<close>. \<open>len\<close> is
  evaluated first, then the dict is built, then \<open>self.zones.append\<close>, which only a list
  has.
\<close>

definition new_zone :: "int \<Rightarrow> (real \<times> real) list \<Rightarrow> pyval" where
  "new_zone zid pts =
     PDict [(''id'', PInt zid),
            (''points'', PList (map (\<lambda>(x, y). PList [PInt (py_int x), PInt (py_int y)]) pts))]"

definition add_zone ::
  "ZoneManager \<Rightarrow> (real \<times> real) list \<Rightarrow> int option \<Rightarrow> py_error + ZoneManager" where
  "add_zone zm pts zone_id_arg =
     (case (case zone_id_arg of
              None \<Rightarrow> (case py_len (zones zm) of Inl e \<Rightarrow> Inl e | Inr n \<Rightarrow> Inr (int n + 1))
            | Some i \<Rightarrow> Inr i) of
        Inl e \<Rightarrow> Inl e
      | Inr zid \<Rightarrow>
          (let z = new_zone zid pts
           in case zones zm of
                PList zs \<Rightarrow> Inr (zm\<lparr>zones := PList (zs @ [z])\<rparr>)
              | _ \<Rightarrow> Inl AttributeError))"

text \<open>
  \<open>save_zones\<close>: \<open>writable path\<close> tells whether \<open>open(path, 'w')\<close> and the write succeed.
  A successful \<open>json.dump\<close> leaves a file whose text is the JSON document of
  \<open>{'zones': self.zones}\<close>; a failed write is reported as \<open>False\<close> (what it leaves on
  disk is not modelled).
\<close>

definition save_zones ::
  "ZoneManager \<Rightarrow> (string \<Rightarrow> bool) \<Rightarrow> filesystem \<Rightarrow> bool \<times> filesystem" where
  "save_zones zm writable fs =
     (if writable (json_path zm)
      then (let data = PDict [(''zones'', zones zm)]
            in (True, fs(json_path zm \<mapsto> Document data)))
      else (False, fs))"

definition get_zones :: "ZoneManager \<Rightarrow> pyval" where
  "get_zones zm = zones zm"

definition clear_zones :: "ZoneManager \<Rightarrow> ZoneManager" where
  "clear_zones zm = zm\<lparr>zones := PList []\<rparr>"

text \<open>A sequence of \<open>add_zone\<close> calls; the first exception ends it.\<close>

fun add_zones :: "ZoneManager \<Rightarrow> ((real \<times> real) list \<times> int option) list \<Rightarrow> py_error + ZoneManager" where
  "add_zones zm [] = Inr zm"
| "add_zones zm (c # cs) =
     (case add_zone zm (fst c) (snd c) of Inl e \<Rightarrow> Inl e | Inr zm' \<Rightarrow> add_zones zm' cs)"

text \<open>
  What a reader of the registry sees: the number of zones, and \<open>zone['id']\<close> and
  \<open>zone['points']\<close> of every zone, in order (\<open>None\<close> where an entry has no such key).
\<close>

definition py_getitem :: "pyval \<Rightarrow> string \<Rightarrow> pyval option" where
  "py_getitem v key = (case v of PDict kvs \<Rightarrow> map_of kvs key | _ \<Rightarrow> None)"

definition registry_entries :: "pyval \<Rightarrow> pyval list" where
  "registry_entries v = (case v of PList zs \<Rightarrow> zs | _ \<Rightarrow> [])"

definition registry_ids :: "pyval \<Rightarrow> pyval option list" where
  "registry_ids v = map (\<lambda>z. py_getitem z ''id'') (registry_entries v)"

definition registry_points :: "pyval \<Rightarrow> pyval option list" where
  "registry_points v = map (\<lambda>z. py_getitem z ''points'') (registry_entries v)"


section \<open>The alarm state machine (intrusion\_detector.py, class AlarmState)\<close>

text \<open>
  The class has three attributes: \<open>active\<close>, the optional \<open>deactivate_time\<close> and the
  constant \<open>deactivate_delay = 3.0\<close>. Python floats are modelled as real numbers, so
  float rounding and the special values inf and nan are outside the model.
\<close>

record AlarmState =
  active :: bool
  deactivate_time :: "real option"
  deactivate_delay :: real

definition AlarmState_init :: AlarmState where
  "AlarmState_init = \<lparr>active = False, deactivate_time = None, deactivate_delay = 3\<rparr>"

text \<open>
  Python's truth value of an \<open>Optional[float]\<close>, as used by \<open>not self.deactivate_time\<close>
  and \<open>self.deactivate_time and ...\<close>: \<open>None\<close> is false, and so is the float \<open>0.0\<close>.
\<close>

definition truthy :: "real option \<Rightarrow> bool" where
  "truthy t = (case t of None \<Rightarrow> False | Some v \<Rightarrow> v \<noteq> 0)"

definition activate :: "AlarmState \<Rightarrow> AlarmState" where
  "activate s = s\<lparr>active := True, deactivate_time := None\<rparr>"

text \<open>
  \<open>check_deactivate\<close> is two consecutive \<open>if\<close> statements; the second one reads the
  attributes as the first one left them.
\<close>

definition check_deactivate :: "AlarmState \<Rightarrow> real \<Rightarrow> AlarmState" where
  "check_deactivate s current_time =
     (let s1 = (if active s \<and> \<not> truthy (deactivate_time s)
                then s\<lparr>deactivate_time := Some (current_time + deactivate_delay s)\<rparr>
                else s)
      in if truthy (deactivate_time s1) \<and>
            (case deactivate_time s1 of None \<Rightarrow> False | Some d \<Rightarrow> current_time \<ge> d)
         then s1\<lparr>active := False, deactivate_time := None\<rparr>
         else s1)"

definition reset :: "AlarmState \<Rightarrow> AlarmState" where
  "reset s = s\<lparr>active := False, deactivate_time := None\<rparr>"

text \<open>
  The end of \<open>process_frame\<close>: \<open>if has_intrusion: activate() else: check_deactivate(t)\<close>.
  One update is the pair \<open>(has_intrusion, current_time)\<close>.
\<close>

definition update_alarm :: "AlarmState \<Rightarrow> bool \<times> real \<Rightarrow> AlarmState" where
  "update_alarm s u =
     (if fst u then activate s else check_deactivate s (snd u))"

text \<open>The operations of the class, for statements about every sequence of calls.\<close>

datatype alarm_op = Activate | CheckDeactivate real | Reset

fun alarm_step :: "AlarmState \<Rightarrow> alarm_op \<Rightarrow> AlarmState" where
  "alarm_step s Activate = activate s"
| "alarm_step s (CheckDeactivate t) = check_deactivate s t"
| "alarm_step s Reset = reset s"

text \<open>The invariant of the class: an inactive alarm carries no timestamp.\<close>

definition alarm_inv :: "AlarmState \<Rightarrow> bool" where
  "alarm_inv s = (\<not> active s \<longrightarrow> deactivate_time s = None)"


section \<open>The per-frame aggregation (intrusion\_detector.py, process\_frame)\<close>

text \<open>
  The detector model is an external collaborator; its output for the frame is the input
  here: a list of results, each with its \<open>boxes\<close>, each box with the corners \<open>xyxy\<close> and
  the confidence \<open>conf\<close>.
\<close>

record detection =
  xyxy :: bbox
  conf :: real

type_synonym result = "detection list"

text \<open>
  The two nested loops, with the flag \<open>has_intrusion\<close> as accumulator; \<open>f\<close> is the float
  format of the box corners.
\<close>

fun boxes_loop ::
  "float_format \<Rightarrow> polygon_test \<Rightarrow> zone list \<Rightarrow> detection list \<Rightarrow> bool \<Rightarrow> bool" where
  "boxes_loop f ppt zs [] has_intrusion = has_intrusion"
| "boxes_loop f ppt zs (box # boxes) has_intrusion =
     (let center = bbox_center f (xyxy box);
          intersecting_zones = check_person_in_zones ppt center zs
      in boxes_loop f ppt zs boxes (if intersecting_zones \<noteq> [] then True else has_intrusion))"

fun results_loop ::
  "float_format \<Rightarrow> polygon_test \<Rightarrow> zone list \<Rightarrow> result list \<Rightarrow> bool \<Rightarrow> bool" where
  "results_loop f ppt zs [] has_intrusion = has_intrusion"
| "results_loop f ppt zs (r # results) has_intrusion =
     results_loop f ppt zs results (boxes_loop f ppt zs r has_intrusion)"

definition frame_has_intrusion ::
  "float_format \<Rightarrow> polygon_test \<Rightarrow> zone list \<Rightarrow> result list \<Rightarrow> bool" where
  "frame_has_intrusion f ppt zs results = results_loop f ppt zs results False"

definition process_frame ::
  "float_format \<Rightarrow> polygon_test \<Rightarrow> zone list \<Rightarrow> result list \<Rightarrow> real \<Rightarrow> AlarmState
     \<Rightarrow> AlarmState" where
  "process_frame f ppt zs results current_time alarm_state =
     update_alarm alarm_state (frame_has_intrusion f ppt zs results, current_time)"


section \<open>Properties of the floating-point rounding\<close>

lemma powr_powi: "2 powr real_of_int n = (2::real) powi n"
  by (rule powr_real_of_int') simp_all

text \<open>The exponent is the integer part of the binary logarithm.\<close>

lemma float_exponent_log:
  assumes "0 < m"
  shows "float_exponent m = \<lfloor>log 2 m\<rfloor>"
proof (cases "1 \<le> m")
  case True
  then have pos: "0 < \<lfloor>m\<rfloor>" by simp
  define k where "k = bitlen \<lfloor>m\<rfloor> - 1"
  from bitlen_bounds [OF pos] have b: "2 ^ nat k \<le> \<lfloor>m\<rfloor>" "\<lfloor>m\<rfloor> < 2 ^ nat (k + 1)"
    by (simp_all add: k_def)
  have k0: "0 \<le> k" using pos by (simp add: k_def bitlen_alt_def)
  have lo: "2 powr real_of_int k \<le> m"
  proof -
    have "real_of_int (2 ^ nat k) \<le> real_of_int \<lfloor>m\<rfloor>" using b(1) by linarith
    also have "\<dots> \<le> m" by simp
    finally show ?thesis using k0 powr_real_of_int [of 2 k] by simp
  qed
  have hi: "m < 2 powr real_of_int (k + 1)"
  proof -
    have "\<lfloor>m\<rfloor> + 1 \<le> 2 ^ nat (k + 1)" using b(2) by simp
    then have "real_of_int (\<lfloor>m\<rfloor> + 1) \<le> real_of_int (2 ^ nat (k + 1))" by linarith
    moreover have "m < real_of_int (\<lfloor>m\<rfloor> + 1)" by linarith
    ultimately have "m < real_of_int (2 ^ nat (k + 1))" by linarith
    then show ?thesis using k0 powr_real_of_int [of 2 "k + 1"] by simp
  qed
  have "\<lfloor>log 2 m\<rfloor> = k"
    using floor_log_eq_powr_iff [of m 2 k] assms lo hi by simp
  with True show ?thesis by (simp add: float_exponent_def k_def)
next
  case False
  with assms have m1: "m < 1" by simp
  define c where "c = \<lceil>1 / m\<rceil>"
  have "1 < 1 / m" using assms m1 by simp
  then have c2: "2 \<le> c" unfolding c_def by linarith
  define j where "j = bitlen (c - 1)"
  have pos: "0 < c - 1" using c2 by simp
  from bitlen_bounds [OF pos] have b: "2 ^ nat (j - 1) \<le> c - 1" "c - 1 < 2 ^ nat j"
    by (simp_all add: j_def)
  have j1: "1 \<le> j" using pos by (simp add: j_def bitlen_alt_def)
  have up: "1 / m \<le> real_of_int (2 ^ nat j)"
  proof -
    have "c \<le> 2 ^ nat j" using b(2) by simp
    then show ?thesis unfolding c_def by (simp add: ceiling_le_iff)
  qed
  have low: "real_of_int (2 ^ nat (j - 1)) < 1 / m"
  proof -
    have "2 ^ nat (j - 1) < c" using b(1) by simp
    then show ?thesis unfolding c_def by (simp add: less_ceiling_iff)
  qed
  have lo: "2 powr real_of_int (- j) \<le> m"
  proof -
    have "1 / m \<le> 2 ^ nat j" using up by simp
    then have "1 / 2 ^ nat j \<le> m" using assms
      by (simp add: field_simps)
    moreover have "2 powr real_of_int (- j) = 1 / 2 ^ nat j"
      using j1 powr_real_of_int [of 2 "- j"] by (simp add: field_simps)
    ultimately show ?thesis by simp
  qed
  have hi: "m < 2 powr real_of_int (- j + 1)"
  proof -
    have "2 ^ nat (j - 1) < 1 / m" using low by simp
    then have "m < 1 / 2 ^ nat (j - 1)" using assms
      by (simp add: field_simps)
    moreover have "2 powr real_of_int (- j + 1) = 1 / 2 ^ nat (j - 1)"
    proof (cases "j = 1")
      case True
      then show ?thesis by simp
    next
      case False
      with j1 have "- j + 1 < 0" by simp
      then show ?thesis
        using powr_real_of_int [of 2 "- j + 1"] by (simp add: field_simps)
    qed
    ultimately show ?thesis by simp
  qed
  have "\<lfloor>log 2 m\<rfloor> = - j"
    using floor_log_eq_powr_iff [of m 2 "- j"] assms lo hi by simp
  with False show ?thesis by (simp add: float_exponent_def j_def c_def)
qed

lemma float_exponent_eqI:
  assumes "0 < m" and "2 powi e \<le> m" and "m < 2 powi (e + 1)"
  shows "float_exponent m = e"
proof -
  have "2 powr real_of_int e \<le> m"
    using assms(2) by (simp only: powr_powi)
  moreover have "m < 2 powr (real_of_int e + 1)"
    using assms(3) powr_powi [of "e + 1"] by simp
  ultimately have "\<lfloor>log 2 m\<rfloor> = e"
    using floor_log_eq_powr_iff [of m 2 e] assms(1) by simp
  with assms(1) show ?thesis by (simp add: float_exponent_log)
qed

lemma float_exponent_bounds:
  assumes "0 < m"
  shows "2 powi float_exponent m \<le> m" "m < 2 powi (float_exponent m + 1)"
proof -
  let ?e = "\<lfloor>log 2 m\<rfloor>"
  have b: "2 powr real_of_int ?e \<le> m \<and> m < 2 powr (real_of_int ?e + 1)"
    using floor_log_eq_powr_iff [of m 2 ?e] assms by simp
  from b have "2 powi ?e \<le> m" by (simp only: powr_powi)
  moreover from b have "m < 2 powi (?e + 1)"
    using powr_powi [of "?e + 1"] by simp
  ultimately show "2 powi float_exponent m \<le> m" "m < 2 powi (float_exponent m + 1)"
    using assms by (simp_all add: float_exponent_log)
qed

lemma float_exponent_half:
  assumes "0 < m"
  shows "float_exponent (m / 2) = float_exponent m - 1"
proof -
  have "log 2 (m / 2) = log 2 m - 1"
    using assms by (simp add: log_divide)
  then have "\<lfloor>log 2 (m / 2)\<rfloor> = \<lfloor>log 2 m\<rfloor> - 1"
    by simp
  with assms show ?thesis by (simp add: float_exponent_log)
qed

lemma round_half_even_of_int: "round_half_even (real_of_int n) = n"
  by (simp add: round_half_even_def)

lemma round_half_even_error: "\<bar>real_of_int (round_half_even q) - q\<bar> \<le> 1 / 2"
  unfolding round_half_even_def Let_def by (auto simp: abs_if) linarith+

lemma round_half_even_ge: "real_of_int n \<le> q \<Longrightarrow> n \<le> round_half_even q"
  unfolding round_half_even_def Let_def by (auto simp: le_floor_iff) linarith+

lemma round_half_even_le:
  assumes "q \<le> real_of_int n"
  shows "round_half_even q \<le> n"
proof -
  have fl_le: "\<lfloor>q\<rfloor> \<le> n" using assms by (simp add: floor_le_iff)
  show ?thesis
  proof (cases "q = real_of_int \<lfloor>q\<rfloor>")
    case True
    then have "round_half_even q = \<lfloor>q\<rfloor>" by (simp add: round_half_even_def)
    with fl_le show ?thesis by simp
  next
    case False
    then have "real_of_int \<lfloor>q\<rfloor> < q" by linarith
    with assms have "\<lfloor>q\<rfloor> < n" by linarith
    moreover have "round_half_even q \<le> \<lfloor>q\<rfloor> + 1"
      by (simp add: round_half_even_def Let_def)
    ultimately show ?thesis by linarith
  qed
qed

lemma round_float_minus: "round_float p (- x) = - round_float p x"
  by (simp add: round_float_def Let_def sgn_minus)

lemma round_float_pos:
  assumes "0 < x"
  shows "round_float p x
     = real_of_int (round_half_even (x / 2 powi (float_exponent x - int p + 1)))
         * 2 powi (float_exponent x - int p + 1)"
  using assms by (simp add: round_float_def Let_def)

text \<open>The rounded number is within half a unit in the last place of the exact one.\<close>

lemma round_float_error:
  assumes "0 < x"
  shows "\<bar>round_float p x - x\<bar> \<le> 2 powi (float_exponent x - int p + 1) / 2"
proof -
  define u :: real where "u = 2 powi (float_exponent x - int p + 1)"
  define r where "r = real_of_int (round_half_even (x / u))"
  have u: "0 < u" by (simp add: u_def)
  have "round_float p x = r * u"
    using round_float_pos [OF assms] by (simp add: r_def u_def)
  then have "round_float p x - x = (r - x / u) * u"
    using u by (simp add: field_simps)
  then have "\<bar>round_float p x - x\<bar> = \<bar>r - x / u\<bar> * u"
    using u by (simp add: abs_mult)
  also have "\<dots> \<le> 1 / 2 * u"
    using round_half_even_error [of "x / u"] u unfolding r_def
    by (intro mult_right_mono) simp_all
  finally show ?thesis by (simp add: u_def)
qed

text \<open>Dividing by 2 is exact: it commutes with the rounding.\<close>

lemma round_float_half: "round_float p (x / 2) = round_float p x / 2"
proof (cases "x = 0")
  case True
  then show ?thesis by (simp add: round_float_def)
next
  case False
  then have pos: "0 < \<bar>x\<bar>" by simp
  let ?e = "float_exponent \<bar>x\<bar> - int p + 1"
  have e: "float_exponent \<bar>x / 2\<bar> - int p + 1 = ?e - 1"
    using float_exponent_half [OF pos] by simp
  have "(2::real) powi (n - 1) = 2 powi n / 2" for n :: int
    by (simp add: power_int_diff)
  then have u: "(2::real) powi (?e - 1) = 2 powi ?e / 2" .
  have q: "\<bar>x / 2\<bar> / (2 powi ?e / 2) = \<bar>x\<bar> / 2 powi ?e"
    by simp
  have s: "sgn (x / 2) = sgn x"
    by (simp add: sgn_if)
  show ?thesis
    using False unfolding round_float_def Let_def e u q s by simp
qed

text \<open>
  Every integer of at most \<open>p\<close> bits, scaled by a power of two, is a number of the
  format: rounding leaves it as it is.
\<close>

lemma round_float_representable:
  assumes n: "0 < n" "n \<le> 2 ^ p" and p: "0 < p"
  shows "round_float p (real_of_int n * 2 powi k) = real_of_int n * 2 powi k"
proof -
  let ?y = "real_of_int n * 2 powi k"
  have ypos: "0 < ?y" using n by simp
  define e where "e = float_exponent ?y"
  define t where "t = int p + k - e - 1"
  have lo: "2 powi e \<le> ?y" and hi: "?y < 2 powi (e + 1)"
    using float_exponent_bounds [OF ypos] by (simp_all add: e_def)
  have pk: "(2::real) powi (int p + k) = 2 ^ p * 2 powi k"
    by (simp add: power_int_add)
  have et: "e - int p + 1 = k - t" by (simp add: t_def)
  have u: "(2::real) powi (e - int p + 1) = 2 powi k / 2 powi t"
    unfolding et by (rule power_int_diff) simp
  have yu: "?y / 2 powi (e - int p + 1) = real_of_int n * 2 powi t"
    unfolding u by simp
  have "\<exists>N. real_of_int n * 2 powi t = real_of_int N"
  proof (cases "n = 2 ^ p")
    case True
    then have y: "?y = 2 powi (int p + k)" by (simp add: pk)
    have "float_exponent ?y = int p + k"
      by (rule float_exponent_eqI [OF ypos]) (simp_all add: y power_int_add)
    then have "t = - 1" by (simp add: t_def e_def)
    moreover from p obtain p' where "p = Suc p'" by (cases p) auto
    ultimately have "real_of_int n * 2 powi t = real_of_int (2 ^ p')"
      using True by (simp add: power_int_minus)
    then show ?thesis by blast
  next
    case False
    with n have "n < 2 ^ p" by simp
    then have "real_of_int n < 2 ^ p"
      by (metis of_int_less_iff of_int_numeral of_int_power)
    then have "?y < 2 powi (int p + k)"
      unfolding pk by simp
    with lo have "2 powi e < (2::real) powi (int p + k)" by linarith
    then have "e < int p + k"
      using power_int_increasing [of "int p + k" e "2::real"] by (cases "e < int p + k") auto
    then have "0 \<le> t" by (simp add: t_def)
    then have "(2::real) powi t = 2 ^ nat t" by (simp add: power_int_def)
    then have "real_of_int n * 2 powi t = real_of_int (n * 2 ^ nat t)" by simp
    then show ?thesis by blast
  qed
  then obtain N where N: "real_of_int n * 2 powi t = real_of_int N" by blast
  have "round_float p ?y
      = real_of_int (round_half_even (?y / 2 powi (e - int p + 1))) * 2 powi (e - int p + 1)"
    using round_float_pos [OF ypos] by (simp add: e_def)
  also have "\<dots> = real_of_int N * 2 powi (e - int p + 1)"
    unfolding yu N by (simp add: round_half_even_of_int)
  also have "\<dots> = (?y / 2 powi (e - int p + 1)) * 2 powi (e - int p + 1)"
    unfolding yu N ..
  also have "\<dots> = ?y" by simp
  finally show ?thesis .
qed

lemma round_float_idem_pos:
  assumes p: "0 < p" and x: "0 < x"
  shows "round_float p (round_float p x) = round_float p x"
proof -
  define e where "e = float_exponent x"
  define u :: real where "u = 2 powi (e - int p + 1)"
  define r where "r = round_half_even (x / u)"
  have upos: "0 < u" by (simp add: u_def)
  have lo: "2 powi e \<le> x" and hi: "x < 2 powi (e + 1)"
    using float_exponent_bounds [OF x] by (simp_all add: e_def)
  from p obtain p' where p': "p = Suc p'" by (cases p) auto
  have e1: "(2::real) powi e = 2 ^ p' * u"
    by (simp add: u_def p' power_int_diff power_int_add field_simps)
  have e2: "(2::real) powi (e + 1) = 2 ^ p * u"
    by (simp add: u_def p' power_int_diff power_int_add field_simps)
  have "real_of_int (2 ^ p') \<le> x / u"
    using lo upos unfolding e1 by (simp add: field_simps)
  then have rlo: "2 ^ p' \<le> r" unfolding r_def by (rule round_half_even_ge)
  have "x / u \<le> real_of_int (2 ^ p)"
    using hi upos unfolding e2 by (simp add: field_simps)
  then have rhi: "r \<le> 2 ^ p" unfolding r_def by (rule round_half_even_le)
  have rpos: "0 < r"
    using rlo by (smt (verit) zero_less_power)
  have f: "round_float p x = real_of_int r * 2 powi (e - int p + 1)"
    using round_float_pos [OF x] by (simp add: r_def u_def e_def)
  show ?thesis
    unfolding f by (rule round_float_representable [OF rpos rhi p])
qed

lemma round_float_idem:
  assumes "0 < p"
  shows "round_float p (round_float p x) = round_float p x"
proof -
  consider "x = 0" | "0 < x" | "x < 0" by linarith
  then show ?thesis
  proof cases
    case 1
    then show ?thesis by (simp add: round_float_def)
  next
    case 2
    then show ?thesis by (rule round_float_idem_pos [OF assms])
  next
    case 3
    then have "round_float p (round_float p (- x)) = round_float p (- x)"
      by (intro round_float_idem_pos [OF assms]) simp
    then show ?thesis by (simp add: round_float_minus)
  qed
qed

lemma fl_half: "fl f (x / 2) = fl f x / 2"
  by (simp add: fl_def round_float_half)

text \<open>
  The two operations of \<open>bbox_center\<close> give the exact quotient rounded once, which is
  what the true division of Python integers computes from their exact sum.
\<close>

lemma fl_int_true_division:
  assumes "0 < precision f"
  shows "fl f (fl f s / 2) = fl f (s / 2)"
  by (simp add: fl_def round_float_half round_float_idem [OF assms])

text \<open>Known values of the two formats.\<close>

lemma fl_known_values:
  "fl binary64 (1 / 10) = 3602879701896397 / 2 ^ 55"
  "fl binary64 (fl binary64 (1 / 10) + fl binary64 (2 / 10)) = 5404319552844596 / 2 ^ 54"
  "fl binary32 (1 / 10) = 13421773 / 2 ^ 27"
  "fl binary64 (2 ^ 53 + 1) = 2 ^ 53"
  "fl binary64 (2 ^ 53 + 3) = 2 ^ 53 + 4"
  by code_simp+


section \<open>Properties of the geometry helpers\<close>

lemma py_int_truncation: "is_truncation r (py_int r)"
proof (cases "r < 0")
  case True
  have "real_of_int \<lceil>r\<rceil> < r + 1" by linarith
  moreover have "r \<le> real_of_int \<lceil>r\<rceil>" by linarith
  moreover have "\<lceil>r\<rceil> \<le> 0" using True by (simp add: ceiling_le_iff)
  then have "real_of_int \<lceil>r\<rceil> \<le> 0" by simp
  ultimately show ?thesis
    using True by (simp add: is_truncation_def py_int_def mult_nonpos_nonpos)
next
  case False
  have "real_of_int \<lfloor>r\<rfloor> \<le> r" by linarith
  moreover have "r < real_of_int \<lfloor>r\<rfloor> + 1" by linarith
  moreover have "0 \<le> \<lfloor>r\<rfloor>" using False by simp
  then have "0 \<le> real_of_int \<lfloor>r\<rfloor>" by simp
  ultimately show ?thesis
    using False by (simp add: is_truncation_def py_int_def)
qed

text \<open>A coordinate that is an integer already is kept by \<open>int\<close>.\<close>

lemma py_int_of_int: "py_int (real_of_int n) = n"
  by (simp add: py_int_def)

text \<open>\<open>is_truncation\<close> determines the integer: it is a specification, not a bound.\<close>

lemma is_truncation_unique:
  assumes "is_truncation r n"
  shows "n = py_int r"
proof (cases "r < 0")
  case True
  from assms True have "real_of_int n \<le> 0"
    unfolding is_truncation_def
    by (metis mult_le_0_iff not_le order.asym zero_le_mult_iff linorder_not_less)
  with assms True have "r \<le> real_of_int n" "real_of_int n < r + 1"
    unfolding is_truncation_def by linarith+
  then have "\<lceil>r\<rceil> = n" by linarith
  with True show ?thesis by (simp add: py_int_def)
next
  case False
  show ?thesis
  proof (cases "r = 0")
    case True
    with assms show ?thesis by (simp add: is_truncation_def py_int_def)
  next
    case nz: False
    with False have pos: "0 < r" by simp
    from assms pos have "0 \<le> real_of_int n"
      unfolding is_truncation_def by (simp add: zero_le_mult_iff)
    with assms pos have "real_of_int n \<le> r" "r < real_of_int n + 1"
      unfolding is_truncation_def by linarith+
    then have "\<lfloor>r\<rfloor> = n" by linarith
    with False show ?thesis by (simp add: py_int_def)
  qed
qed

lemma bbox_center_negative_example: "bbox_center binary64 (-11, -3, 0, 0) = (-5, -1)"
  by code_simp

text \<open>
  With Python integers as corners (exact sum, true division rounding once) the result is
  the same as with the corners as floats.
\<close>

lemma bbox_center_large_integers:
  "bbox_center binary64 (3, 0, 2 ^ 53, 0) = (4503599627370498, 0)"
  "is_truncation ((3 + 2 ^ 53) / 2) 4503599627370497"
  by code_simp+

text \<open>
  Claim C7, as stated, fails. The claim promises the truncation of the centroid
  \<open>(x1+x2)/2\<close>; the code truncates the floating-point value of that expression. For the
  ordered box whose corners are the floats nearest to \<open>(0.1, 0, 19.9, 10)\<close> the exact
  centroid abscissa is just below 10 and truncates to 9, but the float sum rounds to 20
  and the code returns 10, in \<open>binary64\<close> and in \<open>binary32\<close> alike.
\<close>

theorem bbox_center_not_exact_centroid:
  "fl binary64 (1 / 10) \<le> fl binary64 (199 / 10) \<and> (0::real) \<le> 10 \<and>
   \<not> overflows binary64 (fl binary64 (1 / 10) + fl binary64 (199 / 10)) \<and>
   bbox_center binary64 (fl binary64 (1 / 10), 0, fl binary64 (199 / 10), 10) = (10, 5) \<and>
   is_truncation ((fl binary64 (1 / 10) + fl binary64 (199 / 10)) / 2) 9 \<and>
   \<not> is_truncation ((fl binary64 (1 / 10) + fl binary64 (199 / 10)) / 2) 10 \<and>
   fl binary32 (1 / 10) \<le> fl binary32 (199 / 10) \<and>
   \<not> overflows binary32 (fl binary32 (1 / 10) + fl binary32 (199 / 10)) \<and>
   bbox_center binary32 (fl binary32 (1 / 10), 0, fl binary32 (199 / 10), 10) = (10, 5) \<and>
   is_truncation ((fl binary32 (1 / 10) + fl binary32 (199 / 10)) / 2) 9 \<and>
   \<not> is_truncation ((fl binary32 (1 / 10) + fl binary32 (199 / 10)) / 2) 10"
  by code_simp

text \<open>
  Claim C7, amended. For every float format and every bounding box whose coordinate sums
  do not overflow the format, \<open>bbox_center\<close> returns, for each axis, the truncation toward
  zero of the floating-point value of \<open>(x1+x2)/2\<close> (the sum rounded to the format, then
  halved). Whenever the sum is a number of the format, this is the truncation of the exact
  centroid coordinate. For the box \<open>(0, 0, 10, 11)\<close> it returns \<open>(5, 5)\<close>, which is not
  the rounded centroid \<open>(5, 6)\<close>.
\<close>

theorem bbox_center_truncates:
  assumes "\<not> overflows f (x1 + x2)" and "\<not> overflows f (y1 + y2)"
  shows
  "is_truncation (fl f (fl f (x1 + x2) / 2)) (fst (bbox_center f (x1, y1, x2, y2))) \<and>
   is_truncation (fl f (fl f (y1 + y2) / 2)) (snd (bbox_center f (x1, y1, x2, y2))) \<and>
   (fl f (x1 + x2) = x1 + x2
      \<longrightarrow> is_truncation ((x1 + x2) / 2) (fst (bbox_center f (x1, y1, x2, y2)))) \<and>
   (fl f (y1 + y2) = y1 + y2
      \<longrightarrow> is_truncation ((y1 + y2) / 2) (snd (bbox_center f (x1, y1, x2, y2)))) \<and>
   bbox_center binary64 (0, 0, 10, 11) = (5, 5) \<and>
   bbox_center binary32 (0, 0, 10, 11) = (5, 5) \<and>
   bbox_center binary64 (0, 0, 10, 11)
     \<noteq> (round ((0 + 10) / 2 :: real), round ((0 + 11) / 2 :: real))"
proof -
  have ex: "bbox_center binary64 (0, 0, 10, 11) = (5, 5)"
       "bbox_center binary32 (0, 0, 10, 11) = (5, 5)"
    by code_simp+
  have rd: "round ((0 + 11) / 2 :: real) = 6"
    by (simp add: round_def)
  have x: "fl f (x1 + x2) = x1 + x2 \<Longrightarrow> fl f (fl f (x1 + x2) / 2) = (x1 + x2) / 2"
    by (simp add: fl_half)
  have y: "fl f (y1 + y2) = y1 + y2 \<Longrightarrow> fl f (fl f (y1 + y2) / 2) = (y1 + y2) / 2"
    by (simp add: fl_half)
  have cx: "is_truncation (fl f (fl f (x1 + x2) / 2)) (fst (bbox_center f (x1, y1, x2, y2)))"
    by (simp add: py_int_truncation Let_def)
  have cy: "is_truncation (fl f (fl f (y1 + y2) / 2)) (snd (bbox_center f (x1, y1, x2, y2)))"
    by (simp add: py_int_truncation Let_def)
  have ex_x: "fl f (x1 + x2) = x1 + x2
      \<longrightarrow> is_truncation ((x1 + x2) / 2) (fst (bbox_center f (x1, y1, x2, y2)))"
  proof
    assume a: "fl f (x1 + x2) = x1 + x2"
    from cx show "is_truncation ((x1 + x2) / 2) (fst (bbox_center f (x1, y1, x2, y2)))"
      unfolding x [OF a] .
  qed
  have ex_y: "fl f (y1 + y2) = y1 + y2
      \<longrightarrow> is_truncation ((y1 + y2) / 2) (snd (bbox_center f (x1, y1, x2, y2)))"
  proof
    assume a: "fl f (y1 + y2) = y1 + y2"
    from cy show "is_truncation ((y1 + y2) / 2) (snd (bbox_center f (x1, y1, x2, y2)))"
      unfolding y [OF a] .
  qed
  have nr: "bbox_center binary64 (0, 0, 10, 11)
     \<noteq> (round ((0 + 10) / 2 :: real), round ((0 + 11) / 2 :: real))"
    unfolding ex rd by simp
  from cx cy ex_x ex_y ex nr show ?thesis by (intro conjI)
qed

theorem bbox_center_truncates_witness:
  "\<not> overflows binary64 (0 + 10) \<and> \<not> overflows binary64 (0 + 11) \<and>
   fl binary64 (0 + 10) = 0 + 10 \<and> fl binary64 (0 + 11) = 0 + 11 \<and>
   is_truncation ((0 + 10) / 2) (fst (bbox_center binary64 (0, 0, 10, 11))) \<and>
   is_truncation ((0 + 11) / 2) (snd (bbox_center binary64 (0, 0, 10, 11))) \<and>
   bbox_center binary64 (0, 0, 10, 11) = (5, 5)"
proof -
  have o1: "\<not> overflows binary64 (0 + 10)" and o2: "\<not> overflows binary64 (0 + 11)"
    by code_simp+
  have e1: "fl binary64 (0 + 10) = 0 + 10" and e2: "fl binary64 (0 + 11) = 0 + 11"
    by code_simp+
  from bbox_center_truncates [OF o1 o2] e1 e2 o1 o2 show ?thesis
    by blast
qed

text \<open>
  The wrapper \<open>point_in_polygon\<close> is inclusive of whatever the library reports as the
  boundary: it answers true exactly when the signed result is not negative.
\<close>

lemma point_in_polygon_iff:
  "point_in_polygon ppt p poly \<longleftrightarrow> 0 \<le> ppt poly p"
  by (simp add: point_in_polygon_def)

lemma zones_loop_acc:
  "zones_loop ppt c zs acc
     = acc @ map zone_id (filter (\<lambda>z. point_in_polygon ppt c (points z)) zs)"
  by (induction zs arbitrary: acc) simp_all

text \<open>
  Claim C6. For every point and every list of zones, \<open>check_person_in_zones\<close> returns
  the ids of exactly the zones whose polygon passes \<open>point_in_polygon\<close>, every one of
  them, in the order of the registry.
\<close>

theorem check_person_in_zones_all_matches:
  "check_person_in_zones ppt c zs
     = map zone_id (filter (\<lambda>z. point_in_polygon ppt c (points z)) zs)"
  by (simp add: check_person_in_zones_def zones_loop_acc)

lemma check_person_in_zones_overlap_example:
  "check_person_in_zones (\<lambda>poly p. if poly = [(9, 9), (9, 8), (8, 8)] then - 1 else 1) (5, 5)
     [\<lparr>zone_id = 7, points = [(0, 0), (10, 0), (10, 10)]\<rparr>,
      \<lparr>zone_id = 2, points = [(9, 9), (9, 8), (8, 8)]\<rparr>,
      \<lparr>zone_id = 3, points = [(0, 0), (20, 0), (20, 20)]\<rparr>] = [7, 3]"
  by (simp add: check_person_in_zones_def point_in_polygon_def)

lemma check_person_in_zones_nonempty:
  "check_person_in_zones ppt c zs \<noteq> [] \<longleftrightarrow> (\<exists>z \<in> set zs. point_in_polygon ppt c (points z))"
  by (simp add: check_person_in_zones_def zones_loop_acc filter_empty_conv)


section \<open>Properties of the zone registry\<close>

lemma load_zones_missing: "fs (json_path zm) = None \<Longrightarrow> load_zones zm fs = Inr zm"
  by (simp add: load_zones_def)

lemma load_zones_caught:
  "fs (json_path zm) = Some Unreadable \<or> fs (json_path zm) = Some Unparsable
     \<Longrightarrow> load_zones zm fs = Inr (zm\<lparr>zones := PList []\<rparr>)"
  by (auto simp: load_zones_def json_load_def)

lemma load_zones_undecodable:
  "fs (json_path zm) = Some Undecodable \<Longrightarrow> load_zones zm fs = Inl UnicodeDecodeError"
  by (simp add: load_zones_def json_load_def)

lemma load_zones_document:
  "fs (json_path zm) = Some (Document d) \<Longrightarrow>
   load_zones zm fs
     = (case py_get d ''zones'' (PList []) of Inl e \<Rightarrow> Inl e | Inr z \<Rightarrow> Inr (zm\<lparr>zones := z\<rparr>))"
  by (cases d) (simp_all add: load_zones_def json_load_def py_get_def)

text \<open>
  The part of the silent-degrade policy that the code implements: a missing path, a file
  that cannot be opened or read, and a text that is not JSON all give the empty registry.
\<close>

lemma ZoneManager_init_degrades:
  "fs p = None \<or> fs p = Some Unreadable \<or> fs p = Some Unparsable
     \<Longrightarrow> ZoneManager_init p fs = Inr \<lparr>json_path = p, zones = PList []\<rparr>"
  by (auto simp: ZoneManager_init_def load_zones_def json_load_def)

text \<open>
  Claim C8. Loading should give an empty registry and raise nothing whenever the source is
  missing, malformed or unreadable. The handler of \<open>load_zones\<close> lists
  \<open>json.JSONDecodeError\<close> and \<open>IOError\<close> only. A file whose text is the JSON document
  \<open>[]\<close> (well-formed JSON, but not the object the schema asks for) makes
  \<open>data.get\<close> raise \<open>AttributeError\<close>, and a file whose bytes are not UTF-8 makes the read
  raise \<open>UnicodeDecodeError\<close>; both leave \<open>load_zones\<close> and the constructor.
\<close>

theorem ZoneManager_init_raises_on_malformed:
  "ZoneManager_init ''restricted_zones.json''
      (\<lambda>p. if p = ''restricted_zones.json'' then Some (Document (PList [])) else None)
     = Inl AttributeError
   \<and> ZoneManager_init ''restricted_zones.json''
      (\<lambda>p. if p = ''restricted_zones.json'' then Some Undecodable else None)
     = Inl UnicodeDecodeError"
  by (simp add: ZoneManager_init_def load_zones_def json_load_def py_get_def)

text \<open>
  Claim C10. When the source is a JSON object, loading never raises: without a key
  \<open>"zones"\<close> the registry becomes the empty list, and with the key the registry becomes
  the value stored under it, whatever that value is.
\<close>

theorem load_zones_defaults_missing_key:
  assumes "fs (json_path zm) = Some (Document (PDict kvs))"
  shows "(map_of kvs ''zones'' = None \<longrightarrow> load_zones zm fs = Inr (zm\<lparr>zones := PList []\<rparr>)) \<and>
         (\<forall>v. map_of kvs ''zones'' = Some v \<longrightarrow> load_zones zm fs = Inr (zm\<lparr>zones := v\<rparr>))"
  using assms by (simp add: load_zones_document py_get_def)

theorem load_zones_defaults_missing_key_witness:
  "load_zones \<lparr>json_path = ''restricted_zones.json'', zones = PList [PInt 1]\<rparr>
      (\<lambda>p. if p = ''restricted_zones.json''
           then Some (Document (PDict [(''version'', PInt 2)])) else None)
     = Inr \<lparr>json_path = ''restricted_zones.json'', zones = PList []\<rparr>
   \<and> load_zones \<lparr>json_path = ''restricted_zones.json'', zones = PList []\<rparr>
      (\<lambda>p. if p = ''restricted_zones.json''
           then Some (Document (PDict [(''zones'', PStr ''none'')])) else None)
     = Inr \<lparr>json_path = ''restricted_zones.json'', zones = PStr ''none''\<rparr>"
proof -
  let ?p = "''restricted_zones.json''"
  let ?fs1 = "\<lambda>p. if p = ?p then Some (Document (PDict [(''version'', PInt 2)])) else None"
  let ?fs2 = "\<lambda>p. if p = ?p then Some (Document (PDict [(''zones'', PStr ''none'')])) else None"
  let ?zm1 = "\<lparr>json_path = ?p, zones = PList [PInt 1]\<rparr>"
  let ?zm2 = "\<lparr>json_path = ?p, zones = PList []\<rparr>"
  have h1: "?fs1 (json_path ?zm1) = Some (Document (PDict [(''version'', PInt 2)]))" by simp
  have h2: "?fs2 (json_path ?zm2) = Some (Document (PDict [(''zones'', PStr ''none'')]))" by simp
  have k1: "map_of [(''version'', PInt 2)] ''zones'' = None" by simp
  have k2: "map_of [(''zones'', PStr ''none'')] ''zones'' = Some (PStr ''none'')" by simp
  from load_zones_defaults_missing_key [where fs = ?fs1 and zm = ?zm1, OF h1] k1
  have a: "load_zones ?zm1 ?fs1 = Inr (?zm1\<lparr>zones := PList []\<rparr>)" by blast
  from load_zones_defaults_missing_key [where fs = ?fs2 and zm = ?zm2, OF h2] k2
  have b: "load_zones ?zm2 ?fs2 = Inr (?zm2\<lparr>zones := PStr ''none''\<rparr>)" by blast
  from a b show ?thesis by simp
qed

lemma add_zone_list:
  "zones zm = PList zs \<Longrightarrow>
   add_zone zm pts i
     = Inr (zm\<lparr>zones := PList (zs @ [new_zone (case i of None \<Rightarrow> int (length zs) + 1 | Some a \<Rightarrow> a) pts])\<rparr>)"
  by (cases i) (simp_all add: add_zone_def py_len_def Let_def)

text \<open>Without an explicit id, the third zone of a registry gets the id 3.\<close>

lemma add_zone_third_id:
  "add_zone \<lparr>json_path = p, zones = PList [z1, z2]\<rparr> pts None
     = Inr \<lparr>json_path = p, zones = PList [z1, z2, new_zone 3 pts]\<rparr>"
  by (simp add: add_zone_def py_len_def Let_def)

lemma add_zones_list:
  "zones zm = PList zs \<Longrightarrow>
   \<exists>zs'. length zs' = length cs \<and>
     add_zones zm cs = Inr (zm\<lparr>zones := PList (zs @ zs')\<rparr>)"
proof (induction cs arbitrary: zm zs)
  case Nil
  then show ?case by simp
next
  case (Cons c cs)
  let ?z = "new_zone (case snd c of None \<Rightarrow> int (length zs) + 1 | Some a \<Rightarrow> a) (fst c)"
  let ?zm = "zm\<lparr>zones := PList (zs @ [?z])\<rparr>"
  have z: "add_zone zm (fst c) (snd c) = Inr ?zm"
    by (rule add_zone_list [OF Cons.prems])
  have "zones ?zm = PList (zs @ [?z])" by simp
  from Cons.IH [OF this] obtain zs' where
    "length zs' = length cs"
    "add_zones ?zm cs = Inr (?zm\<lparr>zones := PList ((zs @ [?z]) @ zs')\<rparr>)" by blast
  then have "length (?z # zs') = length (c # cs) \<and>
      add_zones zm (c # cs) = Inr (zm\<lparr>zones := PList (zs @ (?z # zs'))\<rparr>)"
    using z by simp
  then show ?case by blast
qed

lemma add_zones_path:
  "add_zones zm cs = Inr zm' \<Longrightarrow> json_path zm' = json_path zm"
proof (induction cs arbitrary: zm)
  case Nil
  then show ?case by simp
next
  case (Cons c cs)
  then show ?case
    by (auto simp: add_zone_def Let_def split: sum.splits pyval.splits option.splits)
qed

lemma save_then_load:
  assumes "save_zones zm writable fs = (True, fs')"
  shows "load_zones zm fs' = Inr zm" "ZoneManager_init (json_path zm) fs' = Inr zm"
  using assms
  by (auto simp: save_zones_def load_zones_def ZoneManager_init_def json_load_def py_get_def
      Let_def split: if_splits)

text \<open>
  Claim C9. Take a registry built by one or more \<open>add_zone\<close> calls on an empty registry
  for the path \<open>p\<close>, and a \<open>save_zones\<close> that succeeds (returns \<open>True\<close>). Loading from
  \<open>p\<close> afterwards, by a new \<open>ZoneManager(p)\<close> or by \<open>load_zones\<close> on the same manager,
  raises nothing and yields a registry with the same number of zones (one per call), the
  same ids and the same point sequences, in the same order.
\<close>

theorem save_load_round_trip:
  assumes built: "add_zones \<lparr>json_path = p, zones = PList []\<rparr> cs = Inr zm"
      and nonempty: "cs \<noteq> []"
      and saved: "save_zones zm writable fs = (True, fs')"
  shows "\<exists>zm'. ZoneManager_init p fs' = Inr zm' \<and> load_zones zm fs' = Inr zm' \<and>
           py_len (get_zones zm') = Inr (length cs) \<and>
           py_len (get_zones zm') = py_len (get_zones zm) \<and>
           registry_ids (get_zones zm') = registry_ids (get_zones zm) \<and>
           registry_points (get_zones zm') = registry_points (get_zones zm) \<and>
           get_zones zm' = get_zones zm"
proof -
  have "zones \<lparr>json_path = p, zones = PList []\<rparr> = PList []" by simp
  from add_zones_list [OF this, of cs] built
  obtain zs' where len: "length zs' = length cs" and zm: "zones zm = PList zs'"
    by auto
  from add_zones_path [OF built] have path: "json_path zm = p" by simp
  from save_then_load [OF saved] path
  have "ZoneManager_init p fs' = Inr zm" "load_zones zm fs' = Inr zm" by simp_all
  moreover have "py_len (get_zones zm) = Inr (length cs)"
    by (simp add: get_zones_def zm py_len_def len)
  ultimately show ?thesis by simp
qed

theorem save_load_round_trip_witness:
  "add_zones \<lparr>json_path = ''restricted_zones.json'', zones = PList []\<rparr>
      [([(0, 0), (10, 0), (10, 21 / 2)], None), ([(1, 1), (2, 1), (2, 2), (1, 2)], Some 7)]
     = Inr \<lparr>json_path = ''restricted_zones.json'',
            zones = PList [new_zone 1 [(0, 0), (10, 0), (10, 10)],
                           new_zone 7 [(1, 1), (2, 1), (2, 2), (1, 2)]]\<rparr>
   \<and> fst (save_zones \<lparr>json_path = ''restricted_zones.json'',
            zones = PList [new_zone 1 [(0, 0), (10, 0), (10, 10)],
                           new_zone 7 [(1, 1), (2, 1), (2, 2), (1, 2)]]\<rparr> (\<lambda>p. True) (\<lambda>p. None))
   \<and> (\<exists>zm'. ZoneManager_init ''restricted_zones.json''
        (snd (save_zones \<lparr>json_path = ''restricted_zones.json'',
            zones = PList [new_zone 1 [(0, 0), (10, 0), (10, 10)],
                           new_zone 7 [(1, 1), (2, 1), (2, 2), (1, 2)]]\<rparr> (\<lambda>p. True) (\<lambda>p. None)))
          = Inr zm'
        \<and> py_len (get_zones zm') = Inr 2
        \<and> registry_ids (get_zones zm') = [Some (PInt 1), Some (PInt 7)]
        \<and> registry_points (get_zones zm')
            = [Some (PList [PList [PInt 0, PInt 0], PList [PInt 10, PInt 0],
                            PList [PInt 10, PInt 10]]),
               Some (PList [PList [PInt 1, PInt 1], PList [PInt 2, PInt 1],
                            PList [PInt 2, PInt 2], PList [PInt 1, PInt 2]])])"
proof -
  let ?p = "''restricted_zones.json''"
  let ?cs = "[([(0, 0), (10, 0), (10, 21 / 2)], None), ([(1, 1), (2, 1), (2, 2), (1, 2)], Some 7)]
     :: ((real \<times> real) list \<times> int option) list"
  let ?zm = "\<lparr>json_path = ?p,
            zones = PList [new_zone 1 [(0, 0), (10, 0), (10, 10)],
                           new_zone 7 [(1, 1), (2, 1), (2, 2), (1, 2)]]\<rparr>"
  let ?fs' = "snd (save_zones ?zm (\<lambda>p. True) (\<lambda>p. None))"
  have built: "add_zones \<lparr>json_path = ?p, zones = PList []\<rparr> ?cs = Inr ?zm"
    by (simp add: add_zone_def py_len_def new_zone_def py_int_def Let_def)
  have nonempty: "?cs \<noteq> []" by simp
  have saved: "save_zones ?zm (\<lambda>p. True) (\<lambda>p. None) = (True, ?fs')"
    by (simp add: save_zones_def Let_def)
  have ids: "registry_ids (get_zones ?zm) = [Some (PInt 1), Some (PInt 7)]"
    by (simp add: get_zones_def registry_ids_def registry_entries_def py_getitem_def new_zone_def)
  have pts: "registry_points (get_zones ?zm)
            = [Some (PList [PList [PInt 0, PInt 0], PList [PInt 10, PInt 0],
                            PList [PInt 10, PInt 10]]),
               Some (PList [PList [PInt 1, PInt 1], PList [PInt 2, PInt 1],
                            PList [PInt 2, PInt 2], PList [PInt 1, PInt 2]])]"
    by (simp add: get_zones_def registry_points_def registry_entries_def py_getitem_def
        new_zone_def py_int_def)
  from save_load_round_trip [OF built nonempty saved]
  obtain zm' where zm': "ZoneManager_init ?p ?fs' = Inr zm'"
      "py_len (get_zones zm') = Inr (length ?cs)"
      "registry_ids (get_zones zm') = registry_ids (get_zones ?zm)"
      "registry_points (get_zones zm') = registry_points (get_zones ?zm)"
    by blast
  have loaded: "\<exists>zm'. ZoneManager_init ?p ?fs' = Inr zm' \<and> py_len (get_zones zm') = Inr 2 \<and>
      registry_ids (get_zones zm') = registry_ids (get_zones ?zm) \<and>
      registry_points (get_zones zm') = registry_points (get_zones ?zm)"
    using zm' by (intro exI [of _ zm']) simp
  have ok: "fst (save_zones ?zm (\<lambda>p. True) (\<lambda>p. None))"
    by (simp add: save_zones_def Let_def)
  from built ok loaded [unfolded ids pts] show ?thesis
    by (intro conjI)
qed


section \<open>Properties of the per-frame aggregation\<close>

lemma boxes_loop_flag:
  "boxes_loop f ppt zs bs h
     = (h \<or> (\<exists>b \<in> set bs. check_person_in_zones ppt (bbox_center f (xyxy b)) zs \<noteq> []))"
  by (induction bs arbitrary: h) (auto simp: Let_def)

lemma results_loop_flag:
  "results_loop f ppt zs rs h
     = (h \<or> (\<exists>b \<in> set (concat rs).
          check_person_in_zones ppt (bbox_center f (xyxy b)) zs \<noteq> []))"
  by (induction rs arbitrary: h) (auto simp: boxes_loop_flag)

text \<open>
  Claim C4. The flag \<open>has_intrusion\<close> that \<open>process_frame\<close> computes for a frame is true
  exactly when some detection's bounding-box centre is contained in some zone; that is,
  exactly when the union, over the detections, of the ids \<open>check_person_in_zones\<close>
  reports for the detection's centre is not empty.
\<close>

theorem frame_has_intrusion_iff:
  "frame_has_intrusion f ppt zs results
     = (\<exists>b \<in> set (concat results). \<exists>z \<in> set zs.
          point_in_polygon ppt (bbox_center f (xyxy b)) (points z))
   \<and> frame_has_intrusion f ppt zs results
     = ((\<Union>b \<in> set (concat results).
          set (check_person_in_zones ppt (bbox_center f (xyxy b)) zs)) \<noteq> {})"
proof -
  have flag: "frame_has_intrusion f ppt zs results
     = (\<exists>b \<in> set (concat results).
          check_person_in_zones ppt (bbox_center f (xyxy b)) zs \<noteq> [])"
    by (simp add: frame_has_intrusion_def results_loop_flag)
  have "frame_has_intrusion f ppt zs results
     = (\<exists>b \<in> set (concat results). \<exists>z \<in> set zs.
          point_in_polygon ppt (bbox_center f (xyxy b)) (points z))"
    unfolding flag check_person_in_zones_nonempty ..
  moreover have "frame_has_intrusion f ppt zs results
     = ((\<Union>b \<in> set (concat results).
          set (check_person_in_zones ppt (bbox_center f (xyxy b)) zs)) \<noteq> {})"
    unfolding flag by simp
  ultimately show ?thesis by blast
qed

lemma process_frame_alarm:
  "process_frame f ppt zs results t a
     = (if frame_has_intrusion f ppt zs results then activate a else check_deactivate a t)"
  by (simp add: process_frame_def update_alarm_def)


section \<open>Properties of the alarm state machine\<close>

lemma activate_fields:
  "active (activate s) = True" "deactivate_time (activate s) = None"
  "deactivate_delay (activate s) = deactivate_delay s"
  by (simp_all add: activate_def)

lemma reset_fields:
  "active (reset s) = False" "deactivate_time (reset s) = None"
  "deactivate_delay (reset s) = deactivate_delay s"
  by (simp_all add: reset_def)

lemma check_deactivate_delay:
  "deactivate_delay (check_deactivate s t) = deactivate_delay s"
  by (simp add: check_deactivate_def Let_def)

text \<open>What \<open>check_deactivate\<close> does on an active alarm, case by case.\<close>

lemma check_deactivate_schedules:
  assumes "active s" and "deactivate_time s = None" and "deactivate_delay s = 3"
  shows "check_deactivate s now = s\<lparr>deactivate_time := Some (now + 3)\<rparr>"
  using assms by (simp add: check_deactivate_def Let_def truthy_def)

lemma check_deactivate_due:
  assumes "active s" and "deactivate_time s = Some d" and "d \<noteq> 0" and "d \<le> now"
  shows "check_deactivate s now = s\<lparr>active := False, deactivate_time := None\<rparr>"
  using assms by (simp add: check_deactivate_def Let_def truthy_def)

lemma check_deactivate_not_due:
  assumes "active s" and "deactivate_time s = Some d" and "d \<noteq> 0" and "now < d"
  shows "check_deactivate s now = s"
  using assms by (simp add: check_deactivate_def Let_def truthy_def)

lemma check_deactivate_zero_timestamp:
  assumes "active s" and "deactivate_time s = Some 0" and "0 < deactivate_delay s"
  shows "check_deactivate s now = s\<lparr>deactivate_time := Some (now + deactivate_delay s)\<rparr>"
  using assms by (simp add: check_deactivate_def Let_def truthy_def)

lemma check_deactivate_inactive:
  assumes "\<not> active s" and "deactivate_time s = None"
  shows "check_deactivate s now = s"
  using assms by (simp add: check_deactivate_def Let_def truthy_def)

text \<open>All cases of an active alarm at once; the timestamp \<open>0\<close> is the odd one.\<close>

lemma check_deactivate_active:
  assumes "active s" and "0 < deactivate_delay s"
  shows "check_deactivate s now =
     (case deactivate_time s of
        None \<Rightarrow> s\<lparr>deactivate_time := Some (now + deactivate_delay s)\<rparr>
      | Some d \<Rightarrow>
          if d = 0 then s\<lparr>deactivate_time := Some (now + deactivate_delay s)\<rparr>
          else if d \<le> now then s\<lparr>active := False, deactivate_time := None\<rparr>
          else s)"
  using assms by (simp add: check_deactivate_def Let_def truthy_def split: option.splits)

text \<open>No operation changes the delay: it is \<open>3\<close> in every reachable state.\<close>

lemma deactivate_delay_reachable:
  "deactivate_delay (foldl alarm_step AlarmState_init ops) = 3"
proof -
  have "deactivate_delay (foldl alarm_step s ops) = deactivate_delay s" for s
  proof (induction ops arbitrary: s)
    case Nil
    show ?case by simp
  next
    case (Cons op ops)
    have "deactivate_delay (alarm_step s op) = deactivate_delay s"
      by (cases op) (simp_all add: activate_fields reset_fields check_deactivate_delay)
    with Cons.IH [of "alarm_step s op"] show ?case by simp
  qed
  then show ?thesis by (simp add: AlarmState_init_def)
qed

text \<open>The scenarios of the specification, from the initial state.\<close>

lemma alarm_scenario_quiet_period:
  "foldl update_alarm AlarmState_init [(True, 0)]
     = \<lparr>active = True, deactivate_time = None, deactivate_delay = 3\<rparr>"
  "foldl update_alarm AlarmState_init [(True, 0), (False, 1)]
     = \<lparr>active = True, deactivate_time = Some 4, deactivate_delay = 3\<rparr>"
  "foldl update_alarm AlarmState_init [(True, 0), (False, 1), (False, 4)]
     = \<lparr>active = False, deactivate_time = None, deactivate_delay = 3\<rparr>"
  by (simp_all add: update_alarm_def activate_def check_deactivate_def AlarmState_init_def
      truthy_def Let_def)

lemma alarm_scenario_cancelled:
  "foldl update_alarm AlarmState_init [(True, 0), (False, 1), (True, 2), (False, 4)]
     = \<lparr>active = True, deactivate_time = Some 7, deactivate_delay = 3\<rparr>"
  by (simp add: update_alarm_def activate_def check_deactivate_def AlarmState_init_def
      truthy_def Let_def)

lemma reset_active_pending:
  "reset \<lparr>active = True, deactivate_time = Some d, deactivate_delay = 3\<rparr>
     = \<lparr>active = False, deactivate_time = None, deactivate_delay = 3\<rparr>"
  by (simp add: reset_def)

text \<open>
  Claim C1. In the ACTIVE state an update without intrusion should deactivate the alarm as
  soon as a scheduled timestamp is due. The code tests the timestamp by its truth value, so
  a scheduled timestamp of exactly \<open>0.0\<close> counts as "not scheduled". Starting from the
  initial state, the non-decreasing updates \<open>(true, -3)\<close>, \<open>(false, -3)\<close> schedule the
  deactivation at \<open>-3 + 3 = 0\<close>; the update \<open>(false, 0)\<close> then finds the timestamp due
  (\<open>0 \<ge> 0\<close>), but the alarm stays ACTIVE and the timestamp is moved to \<open>3\<close>.
\<close>

theorem check_deactivate_ignores_zero_timestamp:
  "foldl update_alarm AlarmState_init [(True, -3), (False, -3)]
     = \<lparr>active = True, deactivate_time = Some 0, deactivate_delay = 3\<rparr>
   \<and> check_deactivate \<lparr>active = True, deactivate_time = Some 0, deactivate_delay = 3\<rparr> 0
     = \<lparr>active = True, deactivate_time = Some 3, deactivate_delay = 3\<rparr>"
  by (simp add: update_alarm_def activate_def check_deactivate_def AlarmState_init_def
      truthy_def Let_def)

text \<open>
  Claim C2. For every starting state and every sequence of updates, the state right after
  an update that reports intrusion is ACTIVE with no pending deactivation timestamp;
  whatever was pending before that update (in the starting state or scheduled by the
  earlier updates) is cancelled.
\<close>

theorem intrusion_update_activates:
  "active (foldl update_alarm s (us @ [(True, now)])) = True \<and>
   deactivate_time (foldl update_alarm s (us @ [(True, now)])) = None"
  by (simp add: update_alarm_def activate_def)

lemma alarm_inv_init: "alarm_inv AlarmState_init"
  by (simp add: alarm_inv_def AlarmState_init_def)

lemma alarm_inv_activate: "alarm_inv (activate s)"
  by (simp add: alarm_inv_def activate_def)

lemma alarm_inv_reset: "alarm_inv (reset s)"
  by (simp add: alarm_inv_def reset_def)

lemma alarm_inv_check_deactivate:
  "alarm_inv s \<Longrightarrow> alarm_inv (check_deactivate s t)"
  by (auto simp: alarm_inv_def check_deactivate_def Let_def truthy_def split: option.splits)

lemma alarm_inv_step: "alarm_inv s \<Longrightarrow> alarm_inv (alarm_step s op)"
  by (cases op) (simp_all add: alarm_inv_activate alarm_inv_reset alarm_inv_check_deactivate)

lemma alarm_inv_foldl: "alarm_inv s \<Longrightarrow> alarm_inv (foldl alarm_step s ops)"
  by (induction ops arbitrary: s) (simp_all add: alarm_inv_step)

text \<open>
  Claim C3. An INACTIVE alarm has no pending deactivation timestamp: this holds in the
  initial state, each of \<open>activate\<close>, \<open>check_deactivate\<close> (at any time) and \<open>reset\<close>
  preserves it, and so it holds after every sequence of operations; a state that carries
  a timestamp is therefore ACTIVE.
\<close>

theorem inactive_has_no_timestamp:
  "alarm_inv AlarmState_init \<and>
   (alarm_inv s \<longrightarrow> alarm_inv (activate s) \<and> alarm_inv (check_deactivate s t) \<and> alarm_inv (reset s)) \<and>
   alarm_inv (foldl alarm_step AlarmState_init ops) \<and>
   (deactivate_time (foldl alarm_step AlarmState_init ops) \<noteq> None
      \<longrightarrow> active (foldl alarm_step AlarmState_init ops))"
proof -
  have reach: "alarm_inv (foldl alarm_step AlarmState_init ops)"
    by (rule alarm_inv_foldl [OF alarm_inv_init])
  then have "deactivate_time (foldl alarm_step AlarmState_init ops) \<noteq> None
      \<longrightarrow> active (foldl alarm_step AlarmState_init ops)"
    by (auto simp: alarm_inv_def)
  with reach show ?thesis
    by (simp add: alarm_inv_init alarm_inv_activate alarm_inv_reset alarm_inv_check_deactivate)
qed

theorem inactive_has_no_timestamp_witness:
  "alarm_inv \<lparr>active = True, deactivate_time = Some 4, deactivate_delay = 3\<rparr> \<and>
   alarm_inv (check_deactivate \<lparr>active = True, deactivate_time = Some 4, deactivate_delay = 3\<rparr> 4) \<and>
   foldl alarm_step AlarmState_init [Activate, CheckDeactivate 1, CheckDeactivate 4]
     = \<lparr>active = False, deactivate_time = None, deactivate_delay = 3\<rparr> \<and>
   deactivate_time (foldl alarm_step AlarmState_init [Activate, CheckDeactivate 1]) = Some 4 \<and>
   active (foldl alarm_step AlarmState_init [Activate, CheckDeactivate 1])"
proof -
  let ?s = "\<lparr>active = True, deactivate_time = Some 4, deactivate_delay = 3\<rparr>"
  have pre: "alarm_inv ?s" by (simp add: alarm_inv_def)
  have t: "deactivate_time (foldl alarm_step AlarmState_init [Activate, CheckDeactivate 1]) = Some 4"
    by (simp add: AlarmState_init_def activate_def check_deactivate_def truthy_def Let_def)
  have r: "foldl alarm_step AlarmState_init [Activate, CheckDeactivate 1, CheckDeactivate 4]
     = \<lparr>active = False, deactivate_time = None, deactivate_delay = 3\<rparr>"
    by (simp add: AlarmState_init_def activate_def check_deactivate_def truthy_def Let_def)
  from inactive_has_no_timestamp [of ?s 4 "[Activate, CheckDeactivate 1]"] pre t r
  show ?thesis by simp
qed

end
